theory Spec2Isabelle
  imports Complex_Main
begin


section \<open>DOM elements and the parent resolver (WebUtils.whichIsParent)\<close>

text \<open>
  A DOM element is an identity; its style attributes live in a store indexed by that
  identity. The structural containment test \<open>Node.contains\<close> belongs to the host and is
  taken as a parameter \<open>contains\<close>, where \<open>contains p c\<close> stands for \<open>p.contains(c)\<close>.
\<close>

type_synonym elem = nat

datatype js_error = TypeError

text \<open>
  The loop of \<open>whichIsParent\<close>: \<open>for (i = 0; i < possibleParents.length; i++)\<close>, returning
  \<open>i\<close> at the first hit and \<open>-1\<close> after the loop.
\<close>

function whichIsParent_loop :: "(elem \<Rightarrow> elem \<Rightarrow> bool) \<Rightarrow> elem \<Rightarrow> elem list \<Rightarrow> nat \<Rightarrow> int" where
  "whichIsParent_loop contains child possibleParents i =
     (if i < length possibleParents
      then (if contains (possibleParents ! i) child then int i
            else whichIsParent_loop contains child possibleParents (Suc i))
      else - 1)"
  by pat_completeness auto
termination
  by (relation "measure (\<lambda>(c, ch, ps, i). length ps - i)") auto

declare whichIsParent_loop.simps [simp del]

definition whichIsParent :: "(elem \<Rightarrow> elem \<Rightarrow> bool) \<Rightarrow> elem \<Rightarrow> elem list \<Rightarrow> int" where
  "whichIsParent contains child possibleParents =
     whichIsParent_loop contains child possibleParents 0"

section \<open>Selectable blocks (WebUtils.prepareElsAsSelectableBlocks)\<close>

record style =
  borderStyle :: string
  borderWidth :: string
  cursor :: string
  borderColor :: string

text \<open>
  The options object. A missing property and the empty string are both falsy in
  \<open>if (options.defaultColor)\<close>, so the default is kept for them. The \<open>onSelect\<close> callback is
  modelled by its observable effect: every invocation appends to \<open>onSelectCalls\<close> the
  argument it received together with what the returned accessor (\<open>currentSelection\<close>)
  yields at that moment.
\<close>

record block_options =
  opt_defaultColor :: "string option"
  opt_mouseOverColor :: "string option"
  opt_selectedColor :: "string option"

definition option_or :: "string \<Rightarrow> string option \<Rightarrow> string" where
  "option_or dflt v = (case v of None \<Rightarrow> dflt | Some s \<Rightarrow> if s = [] then dflt else s)"

text \<open>
  The closure state of one controller (\<open>els\<close>, the three colours, \<open>activeIndex\<close>), the
  style store it mutates, and the log of \<open>onSelect\<close> invocations.
\<close>

record blocks =
  els :: "elem list"
  defaultColor :: string
  mouseOverColor :: string
  selectedColor :: string
  activeIndex :: int
  styles :: "elem \<Rightarrow> style"
  onSelectCalls :: "(int \<times> int) list"

text \<open>\<open>els[k]\<close> for a JavaScript number \<open>k\<close>: \<open>undefined\<close> outside the array.\<close>

definition js_index :: "'a list \<Rightarrow> int \<Rightarrow> 'a option" where
  "js_index xs k = (if 0 \<le> k \<and> k < int (length xs) then Some (xs ! nat k) else None)"

text \<open>
  \<open>els[k].style.borderColor = c\<close>: reading \<open>style\<close> of \<open>undefined\<close> throws a TypeError.
\<close>

definition set_borderColor :: "blocks \<Rightarrow> int \<Rightarrow> string \<Rightarrow> js_error + blocks" where
  "set_borderColor b k c =
     (case js_index (els b) k of
        None \<Rightarrow> Inl TypeError
      | Some e \<Rightarrow> Inr (b\<lparr>styles := (styles b)(e := (styles b e)\<lparr>borderColor := c\<rparr>)\<rparr>))"

definition init_block :: "string \<Rightarrow> (elem \<Rightarrow> style) \<Rightarrow> elem \<Rightarrow> (elem \<Rightarrow> style)" where
  "init_block dc st e =
     st(e := (st e)\<lparr>borderStyle := ''solid'', borderWidth := ''medium'',
                    cursor := ''pointer'', borderColor := dc\<rparr>)"

definition prepareElsAsSelectableBlocks ::
  "elem list \<Rightarrow> block_options option \<Rightarrow> (elem \<Rightarrow> style) \<Rightarrow> blocks" where
  "prepareElsAsSelectableBlocks es options st =
     (let dc = (case options of None \<Rightarrow> ''black''
                | Some opts \<Rightarrow> option_or ''black'' (opt_defaultColor opts));
          mc = (case options of None \<Rightarrow> ''orange''
                | Some opts \<Rightarrow> option_or ''orange'' (opt_mouseOverColor opts));
          sc = (case options of None \<Rightarrow> ''red''
                | Some opts \<Rightarrow> option_or ''red'' (opt_selectedColor opts))
      in \<lparr>els = es, defaultColor = dc, mouseOverColor = mc, selectedColor = sc,
          activeIndex = - 1, styles = foldl (init_block dc) st es, onSelectCalls = []\<rparr>)"

definition currentSelection :: "blocks \<Rightarrow> int" where
  "currentSelection b = activeIndex b"

definition onSelect :: "int \<Rightarrow> blocks \<Rightarrow> blocks" where
  "onSelect index b = b\<lparr>onSelectCalls := onSelectCalls b @ [(index, currentSelection b)]\<rparr>"

definition onmouseenter :: "(elem \<Rightarrow> elem \<Rightarrow> bool) \<Rightarrow> elem \<Rightarrow> blocks \<Rightarrow> js_error + blocks" where
  "onmouseenter contains target b =
     (let thisElsIndex = whichIsParent contains target (els b)
      in if activeIndex b \<noteq> thisElsIndex
         then set_borderColor b thisElsIndex (mouseOverColor b)
         else Inr b)"

definition onmouseleave :: "(elem \<Rightarrow> elem \<Rightarrow> bool) \<Rightarrow> elem \<Rightarrow> blocks \<Rightarrow> js_error + blocks" where
  "onmouseleave contains target b =
     (let thisElsIndex = whichIsParent contains target (els b)
      in if activeIndex b \<noteq> thisElsIndex
         then set_borderColor b thisElsIndex (defaultColor b)
         else Inr b)"

definition onclick :: "(elem \<Rightarrow> elem \<Rightarrow> bool) \<Rightarrow> elem \<Rightarrow> blocks \<Rightarrow> js_error + blocks" where
  "onclick contains target b =
     (case (if activeIndex b \<noteq> - 1
            then set_borderColor b (activeIndex b) (defaultColor b)
            else Inr b) of
        Inl e \<Rightarrow> Inl e
      | Inr b1 \<Rightarrow>
          (let thisElsIndex = whichIsParent contains target (els b1)
           in case set_borderColor b1 thisElsIndex (selectedColor b1) of
                Inl e \<Rightarrow> Inl e
              | Inr b2 \<Rightarrow>
                  if activeIndex b2 \<noteq> thisElsIndex
                  then (let b3 = b2\<lparr>activeIndex := thisElsIndex\<rparr>
                        in Inr (onSelect (activeIndex b3) b3))
                  else Inr (b2\<lparr>activeIndex := thisElsIndex\<rparr>)))"

text \<open>Host-delivered events, each carrying its origin element \<open>e.target\<close>.\<close>

datatype event = MouseEnter elem | MouseLeave elem | Click elem

fun target_of :: "event \<Rightarrow> elem" where
  "target_of (MouseEnter t) = t"
| "target_of (MouseLeave t) = t"
| "target_of (Click t) = t"

fun handle :: "(elem \<Rightarrow> elem \<Rightarrow> bool) \<Rightarrow> event \<Rightarrow> blocks \<Rightarrow> js_error + blocks" where
  "handle contains (MouseEnter t) b = onmouseenter contains t b"
| "handle contains (MouseLeave t) b = onmouseleave contains t b"
| "handle contains (Click t) b = onclick contains t b"

text \<open>Handlers run one after the other; the run is cut at the first uncaught error.\<close>

fun run_events :: "(elem \<Rightarrow> elem \<Rightarrow> bool) \<Rightarrow> event list \<Rightarrow> blocks \<Rightarrow> js_error + blocks" where
  "run_events contains [] b = Inr b"
| "run_events contains (ev # evs) b =
     (case handle contains ev b of Inl e \<Rightarrow> Inl e | Inr b' \<Rightarrow> run_events contains evs b')"

text \<open>An event is resolved when some candidate contains its origin.\<close>

definition resolved :: "(elem \<Rightarrow> elem \<Rightarrow> bool) \<Rightarrow> elem list \<Rightarrow> event \<Rightarrow> bool" where
  "resolved contains es ev \<longleftrightarrow> whichIsParent contains (target_of ev) es \<noteq> - 1"

text \<open>A store in which no style attribute has been set yet.\<close>

definition blank_styles :: "elem \<Rightarrow> style" where
  "blank_styles = (\<lambda>_. \<lparr>borderStyle = [], borderWidth = [], cursor = [], borderColor = []\<rparr>)"

text \<open>
  The state invariants of a controller: \<open>activeIndex\<close> is \<open>-1\<close> or a valid index, and,
  for colours that can be told apart, the elements carrying \<open>selectedColor\<close> are exactly
  the active one, which is the first occurrence of its element in \<open>els\<close>.
\<close>

definition active_ok :: "blocks \<Rightarrow> bool" where
  "active_ok b \<longleftrightarrow> - 1 \<le> activeIndex b \<and> activeIndex b < int (length (els b))"

definition selection_inv :: "blocks \<Rightarrow> bool" where
  "selection_inv b \<longleftrightarrow>
     selectedColor b \<noteq> defaultColor b \<and> selectedColor b \<noteq> mouseOverColor b
     \<and> (activeIndex b = - 1
          \<or> (0 \<le> activeIndex b \<and> activeIndex b < int (length (els b))
              \<and> (\<forall>j < nat (activeIndex b). els b ! j \<noteq> els b ! nat (activeIndex b))))
     \<and> (\<forall>e \<in> set (els b). borderColor (styles b e) = selectedColor b
            \<longleftrightarrow> (activeIndex b \<noteq> - 1 \<and> e = els b ! nat (activeIndex b)))"

section \<open>Timers and the fade animator (WebUtils.fadeIn, WebUtils.fadeOut)\<close>

text \<open>
  The closures of the source, one constructor for each function literal that is passed
  around:
  \<^item> \<open>UserCallback\<close>: the completion callback supplied by the caller; it is observed through
    the trace, where each invocation leaves \<open>Completed t\<close> with the time of the call;
  \<^item> \<open>SwapRows trEls trElForThisButton j\<close>: the arrow function a slideshow button hands to
    \<open>fadeOut\<close>, with \<open>j\<close> the index \<open>trElIndexForThisButton - 1\<close> or \<open>+ 1\<close>;
  \<^item> \<open>ChildFaded domElChildren timeoutBetweenTextBlocks callback i\<close>: the arrow function
    \<open>fadeInRecursive(i)\<close> hands to \<open>fadeIn\<close>.
  A continuation is what \<open>setTimeout\<close> was given: the tick of a fade-in or fade-out, or the
  call \<open>fadeInRecursive(i)\<close>.
\<close>

datatype callback =
    UserCallback
  | SwapRows "elem list" elem int
  | ChildFaded "elem list" nat callback nat

datatype cont =
    FadeInTick elem callback
  | FadeOutTick elem callback
  | FadeInNext "elem list" nat callback nat

text \<open>
  Observations of the progressive fade-in: \<open>fadeInRecursive(i)\<close> starting child \<open>i\<close>'s fade
  at time \<open>t\<close>, the callback of that fade running at time \<open>t\<close>, and the caller's completion
  callback running at time \<open>t\<close>.
\<close>

datatype trace_event =
    ChildFadeStart nat nat
  | ChildFadeDone nat nat
  | Completed nat

text \<open>
  The state the animator works on: the clock in milliseconds, the pending timers in
  registration order with their firing times, \<open>style.opacity\<close> (\<open>None\<close> while unset) and
  \<open>style.display\<close> of every element, the delay of every \<open>setTimeout\<close> call so far, the trace,
  and the errors thrown out of handlers and timer callbacks. Opacity values are kept as exact
  rationals; the rounding of binary floating-point sums and the host's serialisation of the
  opacity string are not modelled.
\<close>

record world =
  now :: nat
  timers :: "(nat \<times> cont) list"
  opacity :: "elem \<Rightarrow> rat option"
  display :: "elem \<Rightarrow> string"
  timeouts :: "nat list"
  trace :: "trace_event list"
  uncaught :: "js_error list"

definition setTimeout :: "cont \<Rightarrow> nat \<Rightarrow> world \<Rightarrow> world" where
  "setTimeout k delay w =
     w\<lparr>timers := timers w @ [(now w + delay, k)], timeouts := timeouts w @ [delay]\<rparr>"

text \<open>\<open>options && options.fadeTimeStep\<close>: a missing value and \<open>0\<close> are falsy.\<close>

definition option_or_nat :: "nat \<Rightarrow> nat option \<Rightarrow> nat" where
  "option_or_nat dflt v = (case v of None \<Rightarrow> dflt | Some n \<Rightarrow> if n = 0 then dflt else n)"

text \<open>\<open>if (! domEl.style.opacity) domEl.style.opacity = 1.0\<close>.\<close>

definition init_opacity :: "elem \<Rightarrow> world \<Rightarrow> world" where
  "init_opacity domEl w =
     (case opacity w domEl of
        None \<Rightarrow> w\<lparr>opacity := (opacity w)(domEl := Some 1)\<rparr>
      | Some _ \<Rightarrow> w)"

definition fadeIn :: "elem \<Rightarrow> callback \<Rightarrow> nat option \<Rightarrow> world \<Rightarrow> world" where
  "fadeIn domEl callback options w =
     (let fadeTimeStep = option_or_nat 80 options
      in setTimeout (FadeInTick domEl callback) fadeTimeStep (init_opacity domEl w))"

definition fadeOut :: "elem \<Rightarrow> callback \<Rightarrow> nat option \<Rightarrow> world \<Rightarrow> world" where
  "fadeOut domEl callback options w =
     (let fadeTimeStep = option_or_nat 80 options
      in setTimeout (FadeOutTick domEl callback) fadeTimeStep (init_opacity domEl w))"

text \<open>
  Calling a closure. An index outside \<open>trEls\<close> yields \<open>undefined\<close>, whose \<open>style\<close> cannot be
  read: the callback stops there with a TypeError, after the assignments already made.
\<close>

definition invoke :: "callback \<Rightarrow> world \<Rightarrow> world" where
  "invoke cb w =
     (case cb of
        UserCallback \<Rightarrow> w\<lparr>trace := trace w @ [Completed (now w)]\<rparr>
      | SwapRows trEls trElForThisButton j \<Rightarrow>
          (let w1 = w\<lparr>display := (display w)(trElForThisButton := ''none'')\<rparr>
           in case js_index trEls j of
                None \<Rightarrow> w1\<lparr>uncaught := uncaught w1 @ [TypeError]\<rparr>
              | Some r \<Rightarrow> w1\<lparr>display := (display w1)(r := ''inline''),
                              opacity := (opacity w1)(r := Some 1)\<rparr>)
      | ChildFaded domElChildren timeoutBetweenTextBlocks callback i \<Rightarrow>
          setTimeout (FadeInNext domElChildren timeoutBetweenTextBlocks callback (i + 1))
            timeoutBetweenTextBlocks
            (w\<lparr>trace := trace w @ [ChildFadeDone i (now w)]\<rparr>))"

definition fadeInRecursive :: "elem list \<Rightarrow> nat \<Rightarrow> callback \<Rightarrow> nat \<Rightarrow> world \<Rightarrow> world" where
  "fadeInRecursive domElChildren timeoutBetweenTextBlocks callback i w =
     (if i \<ge> length domElChildren then invoke callback w
      else fadeIn (domElChildren ! i)
             (ChildFaded domElChildren timeoutBetweenTextBlocks callback i) None
             (w\<lparr>trace := trace w @ [ChildFadeStart i (now w)]\<rparr>))"

definition fadeInChildrenProgressively :: "elem list \<Rightarrow> callback \<Rightarrow> nat option \<Rightarrow> world \<Rightarrow> world" where
  "fadeInChildrenProgressively domElChildren callback options w =
     (let timeoutBetweenTextBlocks = option_or_nat 2000 options
      in fadeInRecursive domElChildren timeoutBetweenTextBlocks callback 0 w)"

text \<open>
  The body of a timer. A tick that finds the opacity unset computes \<open>NaN\<close>, which passes
  neither bound and is not a value the style accepts, and re-enters the fade. The
  re-entering calls \<open>WebUtils.fadeIn(domEl, callback)\<close> and \<open>WebUtils.fadeOut(domEl, callback)\<close>
  pass no options.
\<close>

definition run_cont :: "cont \<Rightarrow> world \<Rightarrow> world" where
  "run_cont k w =
     (case k of
        FadeInTick domEl callback \<Rightarrow>
          (case opacity w domEl of
             None \<Rightarrow> fadeIn domEl callback None w
           | Some cur \<Rightarrow>
               (let newOpacity = cur + 1 / 10
                in if newOpacity > 1
                   then invoke callback (w\<lparr>opacity := (opacity w)(domEl := Some 1)\<rparr>)
                   else fadeIn domEl callback None
                          (w\<lparr>opacity := (opacity w)(domEl := Some newOpacity)\<rparr>)))
      | FadeOutTick domEl callback \<Rightarrow>
          (case opacity w domEl of
             None \<Rightarrow> fadeOut domEl callback None w
           | Some cur \<Rightarrow>
               (let newOpacity = cur - 1 / 10
                in if newOpacity < 0
                   then invoke callback (w\<lparr>opacity := (opacity w)(domEl := Some 0)\<rparr>)
                   else fadeOut domEl callback None
                          (w\<lparr>opacity := (opacity w)(domEl := Some newOpacity)\<rparr>)))
      | FadeInNext domElChildren timeoutBetweenTextBlocks callback i \<Rightarrow>
          fadeInRecursive domElChildren timeoutBetweenTextBlocks callback i w)"

text \<open>
  The event loop fires the pending timer that is due first, the one registered first among
  equals, and runs its body to completion.
\<close>

fun earliest :: "(nat \<times> cont) \<Rightarrow> (nat \<times> cont) list \<Rightarrow> (nat \<times> cont)" where
  "earliest best [] = best"
| "earliest best (t # ts) = earliest (if fst t < fst best then t else best) ts"

definition step :: "world \<Rightarrow> world" where
  "step w =
     (case timers w of
        [] \<Rightarrow> w
      | t # ts \<Rightarrow>
          (let due = earliest t ts
           in run_cont (snd due) (w\<lparr>now := max (now w) (fst due), timers := remove1 due (timers w)\<rparr>)))"

fun run :: "nat \<Rightarrow> world \<Rightarrow> world" where
  "run 0 w = w"
| "run (Suc n) w = run n (step w)"

definition idle_world :: world where
  "idle_world = \<lparr>now = 0, timers = [], opacity = (\<lambda>_. None), display = (\<lambda>_. []),
                 timeouts = [], trace = [], uncaught = []\<rparr>"

text \<open>
  Vocabulary for the progressive fade-in. \<open>fade_ticks q\<close> is the number of ticks a fade-in
  needs from opacity \<open>q\<close>: the least \<open>n \<ge> 1\<close> with \<open>q + n / 10 > 1\<close>. A child's fade lasts
  80 ms per tick, since \<open>fadeInChildrenProgressively\<close> passes no options to \<open>fadeIn\<close>.
  \<open>sequential_trace\<close> is the trace of a chain in which each fade starts \<open>interDelay\<close> after the
  previous one is done and the completion callback fires \<open>interDelay\<close> after the last one.
\<close>

definition fade_ticks :: "rat \<Rightarrow> nat" where
  "fade_ticks q = (if q > 9 / 10 then 1 else nat \<lfloor>(1 - q) * 10\<rfloor> + 1)"

definition opacity_or_1 :: "rat option \<Rightarrow> rat" where
  "opacity_or_1 v = (case v of None \<Rightarrow> 1 | Some q \<Rightarrow> q)"

fun fade_durations :: "(elem \<Rightarrow> rat option) \<Rightarrow> elem list \<Rightarrow> nat list" where
  "fade_durations op [] = []"
| "fade_durations op (c # cs) =
     80 * fade_ticks (opacity_or_1 (op c)) # fade_durations (op(c := Some 1)) cs"

fun sequential_trace :: "nat \<Rightarrow> nat \<Rightarrow> nat \<Rightarrow> nat list \<Rightarrow> trace_event list" where
  "sequential_trace interDelay i t [] = [Completed t]"
| "sequential_trace interDelay i t (d # ds) =
     ChildFadeStart i t # ChildFadeDone i (t + d)
       # sequential_trace interDelay (Suc i) (t + d + interDelay) ds"

fun is_Completed :: "trace_event \<Rightarrow> bool" where
  "is_Completed (Completed t) = True"
| "is_Completed _ = False"

section \<open>The slideshow (WebUtils.prepareSlideshow)\<close>

text \<open>
  A row (\<open>tr\<close>) is its \<open>style.display\<close> and its cells (\<open>td\<close>) in order. A button cell carries
  the hidden index text of its button and the \<open>disabled\<close> flag; a content cell holds the
  \<open>div\<close> appended to it, or nothing once that \<open>div\<close> has been appended elsewhere.
\<close>

datatype cell =
    LeftButtonTd nat bool
  | ContentTd "elem option"
  | RightButtonTd nat bool

record tr_row =
  row_display :: string
  cells :: "cell list"


record slideshow =
  trEls :: "tr_row list"
  fadeTimeStep :: nat














section \<open>Slideshow navigation (the button handlers of prepareSlideshow)\<close>















section \<open>Properties of the parent resolver\<close>

lemma whichIsParent_loop_cases:
  "(whichIsParent_loop c ch ps i = - 1 \<and> (\<forall>j. i \<le> j \<and> j < length ps \<longrightarrow> \<not> c (ps ! j) ch))
   \<or> (\<exists>k. whichIsParent_loop c ch ps i = int k \<and> i \<le> k \<and> k < length ps \<and> c (ps ! k) ch
          \<and> (\<forall>j. i \<le> j \<and> j < k \<longrightarrow> \<not> c (ps ! j) ch))"
proof (induction c ch ps i rule: whichIsParent_loop.induct)
  case (1 c ch ps i)
  show ?case
  proof (cases "i < length ps")
    case False
    then show ?thesis by (auto simp: whichIsParent_loop.simps)
  next
    case lt: True
    show ?thesis
    proof (cases "c (ps ! i) ch")
      case True
      with lt show ?thesis by (auto simp: whichIsParent_loop.simps)
    next
      case False
      have eq: "whichIsParent_loop c ch ps i = whichIsParent_loop c ch ps (Suc i)"
        using lt False by (simp add: whichIsParent_loop.simps)
      from "1.IH"[OF lt False] show ?thesis
      proof
        assume a: "whichIsParent_loop c ch ps (Suc i) = - 1 \<and> (\<forall>j. Suc i \<le> j \<and> j < length ps \<longrightarrow> \<not> c (ps ! j) ch)"
        have "\<forall>j. i \<le> j \<and> j < length ps \<longrightarrow> \<not> c (ps ! j) ch"
        proof (intro allI impI)
          fix j assume "i \<le> j \<and> j < length ps"
          then show "\<not> c (ps ! j) ch" using a False by (cases "j = i") auto
        qed
        with a eq show ?thesis by simp
      next
        assume "\<exists>k. whichIsParent_loop c ch ps (Suc i) = int k \<and> Suc i \<le> k \<and> k < length ps \<and> c (ps ! k) ch
          \<and> (\<forall>j. Suc i \<le> j \<and> j < k \<longrightarrow> \<not> c (ps ! j) ch)"
        then obtain k where k: "whichIsParent_loop c ch ps (Suc i) = int k" "Suc i \<le> k" "k < length ps" "c (ps ! k) ch"
          "\<forall>j. Suc i \<le> j \<and> j < k \<longrightarrow> \<not> c (ps ! j) ch" by blast
        have "\<forall>j. i \<le> j \<and> j < k \<longrightarrow> \<not> c (ps ! j) ch"
        proof (intro allI impI)
          fix j assume "i \<le> j \<and> j < k"
          then show "\<not> c (ps ! j) ch" using k(5) False by (cases "j = i") auto
        qed
        with k eq show ?thesis by auto
      qed
    qed
  qed
qed

lemma whichIsParent_cases:
  "(whichIsParent c ch ps = - 1 \<and> (\<forall>j < length ps. \<not> c (ps ! j) ch))
   \<or> (\<exists>k. whichIsParent c ch ps = int k \<and> k < length ps \<and> c (ps ! k) ch
          \<and> (\<forall>j < k. \<not> c (ps ! j) ch))"
  using whichIsParent_loop_cases[of c ch ps 0] unfolding whichIsParent_def by simp

text \<open>
  Claim C9. For every origin and every ordered candidate list, \<open>whichIsParent\<close> returns the
  smallest index whose candidate contains the origin, and \<open>-1\<close> when no candidate does.
  Containment is the host's \<open>contains\<close>; when it is reflexive, as \<open>Node.contains\<close> is, an
  origin that is itself a candidate is always resolved. The resolver is a pure function of
  its arguments, so it mutates nothing.
\<close>

theorem whichIsParent_first_match:
  "(if \<exists>i < length candidates. contains (candidates ! i) origin
    then whichIsParent contains origin candidates
           = int (LEAST i. i < length candidates \<and> contains (candidates ! i) origin)
    else whichIsParent contains origin candidates = - 1)
   \<and> ((\<forall>c. contains c c) \<and> origin \<in> set candidates
        \<longrightarrow> whichIsParent contains origin candidates \<noteq> - 1)"
proof -
  let ?r = "whichIsParent contains origin candidates"
  from whichIsParent_cases[of contains origin candidates]
  have main: "(if \<exists>i < length candidates. contains (candidates ! i) origin
    then ?r = int (LEAST i. i < length candidates \<and> contains (candidates ! i) origin)
    else ?r = - 1)"
  proof
    assume "?r = - 1 \<and> (\<forall>j < length candidates. \<not> contains (candidates ! j) origin)"
    then show ?thesis by auto
  next
    assume "\<exists>k. ?r = int k \<and> k < length candidates \<and> contains (candidates ! k) origin
          \<and> (\<forall>j < k. \<not> contains (candidates ! j) origin)"
    then obtain k where k: "?r = int k" "k < length candidates" "contains (candidates ! k) origin"
       "\<forall>j < k. \<not> contains (candidates ! j) origin" by blast
    have "(LEAST i. i < length candidates \<and> contains (candidates ! i) origin) = k"
      by (rule Least_equality) (use k in \<open>auto simp: not_less[symmetric]\<close>)
    with k show ?thesis by auto
  qed
  have refl: "(\<forall>c. contains c c) \<and> origin \<in> set candidates \<longrightarrow> ?r \<noteq> - 1"
  proof
    assume a: "(\<forall>c. contains c c) \<and> origin \<in> set candidates"
    then obtain i where "i < length candidates" "candidates ! i = origin"
      by (auto simp: in_set_conv_nth)
    with a have "\<exists>i < length candidates. contains (candidates ! i) origin" by auto
    with main show "?r \<noteq> - 1" by auto
  qed
  from main refl show ?thesis by blast
qed

theorem whichIsParent_first_match_witness:
  "whichIsParent (=) 5 [0, 5, 5] = 1 \<and> whichIsParent (=) 7 [0, 5, 5] = - 1
   \<and> whichIsParent (=) 0 [0, 5, 5] \<noteq> - 1"
proof -
  have ex: "\<exists>i < length [0, 5, 5::nat]. [0, 5, 5::nat] ! i = 5"
    by (rule exI[of _ 1]) simp
  have least: "(LEAST i. i < length [0, 5, 5::nat] \<and> [0, 5, 5::nat] ! i = 5) = 1"
    by (rule Least_equality) (auto simp: nth_Cons' split: if_splits)
  have nex: "\<not> (\<exists>i < length [0, 5, 5::nat]. [0, 5, 5::nat] ! i = 7)"
    by (auto simp: nth_Cons' less_Suc_eq)
  have a: "whichIsParent (=) 5 [0, 5, 5] = 1"
    using conjunct1[OF whichIsParent_first_match[of "[0, 5, 5]" "(=)" 5]] ex least
    by (simp only: if_True)
  have b: "whichIsParent (=) 7 [0, 5, 5] = - 1"
    using conjunct1[OF whichIsParent_first_match[of "[0, 5, 5]" "(=)" 7]] nex
    by (simp only: if_False)
  have c: "whichIsParent (=) 0 [0, 5, 5] \<noteq> - 1"
    using conjunct2[OF whichIsParent_first_match[of "[0, 5, 5]" "(=)" 0]] by simp
  from a b c show ?thesis by simp
qed

section \<open>Properties of the selectable blocks\<close>

lemma resolved_index:
  assumes "whichIsParent c t es \<noteq> - 1"
  obtains k where "whichIsParent c t es = int k" "k < length es"
    "\<forall>j < k. es ! j \<noteq> es ! k"
proof -
  from whichIsParent_cases[of c t es] assms
  obtain k where k: "whichIsParent c t es = int k" "k < length es" "c (es ! k) t"
    "\<forall>j < k. \<not> c (es ! j) t" by blast
  then have "\<forall>j < k. es ! j \<noteq> es ! k" by metis
  with k that show thesis by blast
qed

lemma set_borderColor_ok:
  "k < length (els b) \<Longrightarrow>
   set_borderColor b (int k) col
     = Inr (b\<lparr>styles := (styles b)(els b ! k := (styles b (els b ! k))\<lparr>borderColor := col\<rparr>)\<rparr>)"
  by (simp add: set_borderColor_def js_index_def)






lemma selection_inv_active_ok: "selection_inv b \<Longrightarrow> active_ok b"
  by (auto simp: selection_inv_def active_ok_def)

lemma onmouseenter_ok:
  assumes "active_ok b" "whichIsParent c t (els b) \<noteq> - 1"
  shows "\<exists>b'. onmouseenter c t b = Inr b' \<and> active_ok b' \<and> els b' = els b"
proof -
  from assms(2) obtain k where "whichIsParent c t (els b) = int k" "k < length (els b)"
    by (rule resolved_index)
  with assms(1) show ?thesis
    by (auto simp: onmouseenter_def Let_def set_borderColor_ok active_ok_def)
qed

lemma onmouseleave_ok:
  assumes "active_ok b" "whichIsParent c t (els b) \<noteq> - 1"
  shows "\<exists>b'. onmouseleave c t b = Inr b' \<and> active_ok b' \<and> els b' = els b"
proof -
  from assms(2) obtain k where "whichIsParent c t (els b) = int k" "k < length (els b)"
    by (rule resolved_index)
  with assms(1) show ?thesis
    by (auto simp: onmouseleave_def Let_def set_borderColor_ok active_ok_def)
qed

lemma onclick_ok:
  assumes ok: "active_ok b" and res: "whichIsParent c t (els b) = i" "i \<noteq> - 1"
  shows "\<exists>b'. onclick c t b = Inr b' \<and> active_ok b' \<and> els b' = els b \<and> activeIndex b' = i
          \<and> onSelectCalls b' = (if i \<noteq> activeIndex b then onSelectCalls b @ [(i, i)]
                                else onSelectCalls b)"
proof -
  from res obtain k where k: "whichIsParent c t (els b) = int k" "k < length (els b)" "i = int k"
    using resolved_index by metis
  define b1 where "b1 = (if activeIndex b \<noteq> - 1
      then b\<lparr>styles := (styles b)(els b ! nat (activeIndex b)
               := (styles b (els b ! nat (activeIndex b)))\<lparr>borderColor := defaultColor b\<rparr>)\<rparr>
      else b)"
  have step1: "(if activeIndex b \<noteq> - 1
            then set_borderColor b (activeIndex b) (defaultColor b)
            else Inr b) = Inr b1"
  proof (cases "activeIndex b = - 1")
    case True
    then show ?thesis by (simp add: b1_def)
  next
    case False
    with ok have r: "0 \<le> activeIndex b" "nat (activeIndex b) < length (els b)"
      by (auto simp: active_ok_def)
    from set_borderColor_ok[OF r(2), of "defaultColor b"] r(1) False
    show ?thesis by (simp add: b1_def)
  qed
  have f1: "els b1 = els b" "activeIndex b1 = activeIndex b" "onSelectCalls b1 = onSelectCalls b"
    by (simp_all add: b1_def)
  have step2: "set_borderColor b1 (int k) (selectedColor b1)
     = Inr (b1\<lparr>styles := (styles b1)(els b1 ! k := (styles b1 (els b1 ! k))\<lparr>borderColor := selectedColor b1\<rparr>)\<rparr>)"
    using set_borderColor_ok[of k b1 "selectedColor b1"] k(2) by (simp add: f1)
  show ?thesis
    unfolding onclick_def step1 using k step2
    by (simp add: f1 Let_def onSelect_def currentSelection_def active_ok_def)
qed

lemma handle_ok:
  assumes "active_ok b" "resolved c (els b) ev"
  shows "\<exists>b'. handle c ev b = Inr b' \<and> active_ok b' \<and> els b' = els b"
proof (cases ev)
  case (MouseEnter t)
  with assms onmouseenter_ok[of b c t] show ?thesis by (simp add: resolved_def)
next
  case (MouseLeave t)
  with assms onmouseleave_ok[of b c t] show ?thesis by (simp add: resolved_def)
next
  case (Click t)
  with assms onclick_ok[of b c t "whichIsParent c t (els b)"] show ?thesis
    by (auto simp: resolved_def)
qed

lemma run_events_ok:
  "active_ok b \<Longrightarrow> \<forall>ev \<in> set evs. resolved c (els b) ev \<Longrightarrow>
   \<exists>b'. run_events c evs b = Inr b' \<and> active_ok b' \<and> els b' = els b"
proof (induction evs arbitrary: b)
  case Nil
  then show ?case by simp
next
  case (Cons ev evs)
  from Cons.prems handle_ok[of b c ev] obtain b1 where
    b1: "handle c ev b = Inr b1" "active_ok b1" "els b1 = els b" by auto
  from Cons.IH[of b1] b1 Cons.prems show ?case by simp
qed




lemma prepare_fields:
  "els (prepareElsAsSelectableBlocks es options st) = es"
  "activeIndex (prepareElsAsSelectableBlocks es options st) = - 1"
  "onSelectCalls (prepareElsAsSelectableBlocks es options st) = []"
  "styles (prepareElsAsSelectableBlocks es options st)
     = foldl (init_block (defaultColor (prepareElsAsSelectableBlocks es options st))) st es"
  by (simp_all add: prepareElsAsSelectableBlocks_def Let_def)

lemma prepare_active_ok: "active_ok (prepareElsAsSelectableBlocks es options st)"
  by (simp add: active_ok_def prepare_fields)



text \<open>The equations that evaluate a run of handlers on concrete inputs.\<close>

lemmas block_eval = prepareElsAsSelectableBlocks_def Let_def option_or_def init_block_def
  resolved_def whichIsParent_def whichIsParent_loop.simps onclick_def onmouseenter_def
  onmouseleave_def set_borderColor_def js_index_def onSelect_def currentSelection_def
  blank_styles_def



text \<open>
  Claim C2. In every state \<open>b\<close> a controller reaches through resolved events, a click whose
  origin resolves to index \<open>i\<close> does not fault and: if \<open>i\<close> differs from the previous
  \<open>activeIndex\<close>, \<open>onSelect\<close> is invoked exactly once, with argument \<open>i\<close>, and
  \<open>currentSelection()\<close> already yields \<open>i\<close> inside that invocation (the log grows by the
  single entry \<open>(i, i)\<close>); if \<open>i\<close> equals the previous \<open>activeIndex\<close>, \<open>onSelect\<close> is not
  invoked and \<open>activeIndex\<close> keeps its value.
\<close>

theorem click_invokes_onSelect_once_per_change:
  assumes reach: "run_events contains evs (prepareElsAsSelectableBlocks es options st) = Inr b"
    and res: "\<forall>ev \<in> set evs. resolved contains es ev"
    and idx: "whichIsParent contains origin es = i" "i \<noteq> - 1"
  shows "\<exists>b'. onclick contains origin b = Inr b'
          \<and> (if i \<noteq> currentSelection b
              then currentSelection b' = i \<and> onSelectCalls b' = onSelectCalls b @ [(i, i)]
              else currentSelection b' = currentSelection b \<and> onSelectCalls b' = onSelectCalls b)"
proof -
  let ?b0 = "prepareElsAsSelectableBlocks es options st"
  from res have "\<forall>ev \<in> set evs. resolved contains (els ?b0) ev" by (simp add: prepare_fields)
  from run_events_ok[OF prepare_active_ok this] reach
  have ok: "active_ok b" and e: "els b = es" by (auto simp: prepare_fields)
  from idx e have "whichIsParent contains origin (els b) = i" by simp
  from onclick_ok[OF ok this idx(2)] show ?thesis
    by (auto simp: currentSelection_def)
qed

theorem click_invokes_onSelect_once_per_change_witness:
  "\<exists>b b' b''.
     run_events (=) [Click 0] (prepareElsAsSelectableBlocks [0, 1] None blank_styles) = Inr b
     \<and> onclick (=) 1 b = Inr b' \<and> currentSelection b' = 1 \<and> onSelectCalls b' = [(0, 0), (1, 1)]
     \<and> onclick (=) 0 b = Inr b'' \<and> currentSelection b'' = 0 \<and> onSelectCalls b'' = [(0, 0)]"
proof -
  obtain b where b: "run_events (=) [Click 0] (prepareElsAsSelectableBlocks [0, 1] None blank_styles) = Inr b"
    by (simp add: block_eval)
  then have cur: "currentSelection b = 0" "onSelectCalls b = [(0, 0)]"
    by (auto simp: block_eval)
  have r: "\<forall>ev \<in> set [Click 0]. resolved (=) [0, 1] ev" by (simp add: block_eval)
  have i1: "whichIsParent (=) 1 [0, 1] = 1" "(1::int) \<noteq> - 1" by (simp_all add: block_eval)
  have i0: "whichIsParent (=) 0 [0, 1] = 0" "(0::int) \<noteq> - 1" by (simp_all add: block_eval)
  from click_invokes_onSelect_once_per_change[OF b r i1] cur obtain b' where
    "onclick (=) 1 b = Inr b'" "currentSelection b' = 1" "onSelectCalls b' = [(0, 0), (1, 1)]"
    by auto
  moreover from click_invokes_onSelect_once_per_change[OF b r i0] cur obtain b'' where
    "onclick (=) 0 b = Inr b''" "currentSelection b'' = 0" "onSelectCalls b'' = [(0, 0)]"
    by auto
  ultimately show ?thesis using b by blast
qed

text \<open>
  Claim C4. An unresolved pointer-enter or pointer-leave event is a no-op only while nothing
  is selected. Once an element is selected, \<open>activeIndex != thisElsIndex\<close> holds for the
  sentinel \<open>-1\<close>, the handler reads \<open>els[-1].style\<close> and throws a TypeError.
\<close>

lemma unresolved_hover:
  assumes "whichIsParent c t (els b) = - 1"
  shows "onmouseenter c t b = (if activeIndex b = - 1 then Inr b else Inl TypeError)"
    and "onmouseleave c t b = (if activeIndex b = - 1 then Inr b else Inl TypeError)"
  using assms
  by (simp_all add: onmouseenter_def onmouseleave_def set_borderColor_def js_index_def)


section \<open>Properties of the fade animator\<close>

text \<open>The equations that evaluate the timer loop on concrete inputs.\<close>

lemmas engine_eval = setTimeout_def option_or_nat_def init_opacity_def fadeIn_def fadeOut_def
  invoke_def fadeInRecursive_def fadeInChildrenProgressively_def run_cont_def step_def
  idle_world_def Let_def js_index_def

text \<open>
  Claim C6 at a concrete input: \<open>fadeIn\<close> (and \<open>fadeOut\<close>) called with \<open>fadeTimeStep = 10\<close>.
  Only the first tick is scheduled after 10 ms; the tick re-enters \<open>fadeIn(domEl, callback)\<close>
  without the options, so every later tick is scheduled after the default 80 ms.
\<close>

theorem fade_later_ticks_use_default_interval:
  "timeouts (run 3 (fadeIn 3 UserCallback (Some 10) (idle_world\<lparr>opacity := (\<lambda>_. Some 0)\<rparr>)))
     = [10, 80, 80, 80]
   \<and> timeouts (run 3 (fadeOut 3 UserCallback (Some 10) (idle_world\<lparr>opacity := (\<lambda>_. Some 1)\<rparr>)))
     = [10, 80, 80, 80]"
  by (simp add: engine_eval numeral_3_eq_3)

text \<open>
  Claim C10. On a container with no children, \<open>fadeInChildrenProgressively\<close> invokes the
  completion callback within the call itself, exactly once, and schedules nothing: the
  pending timers and the log of \<open>setTimeout\<close> calls are unchanged.
\<close>

theorem no_children_completes_synchronously:
  "fadeInChildrenProgressively [] callback options w = invoke callback w
   \<and> fadeInChildrenProgressively [] UserCallback options w
       = w\<lparr>trace := trace w @ [Completed (now w)]\<rparr>
   \<and> timers (fadeInChildrenProgressively [] UserCallback options w) = timers w
   \<and> timeouts (fadeInChildrenProgressively [] UserCallback options w) = timeouts w"
  by (simp add: fadeInChildrenProgressively_def fadeInRecursive_def invoke_def)

text \<open>
  The claim C5 as stated fails for a single child with \<open>fadeTimeout = 2000\<close>: the child's
  fade completes at 80 ms, yet the completion callback fires at 2080 ms, after one more
  wait of 2000 ms; the delay added is \<open>count * 2000\<close>, not \<open>(count - 1) * 2000\<close>.
\<close>

theorem progressive_fade_counterexample:
  "trace (run 2 (fadeInChildrenProgressively [5] UserCallback (Some 2000) idle_world))
     = [ChildFadeStart 0 0, ChildFadeDone 0 80, Completed 2080]
   \<and> timeouts (run 2 (fadeInChildrenProgressively [5] UserCallback (Some 2000) idle_world))
     = [80, 2000]
   \<and> trace (run 1 (fadeInChildrenProgressively [5] UserCallback (Some 2000) idle_world))
     = [ChildFadeStart 0 0, ChildFadeDone 0 80]"
  by (simp add: engine_eval numeral_2_eq_2)

lemma fade_ticks_last: "q > 9 / 10 \<Longrightarrow> fade_ticks q = 1"
  by (simp add: fade_ticks_def)

lemma fade_ticks_more:
  assumes "\<not> q + 1 / 10 > (1::rat)"
  shows "fade_ticks q = Suc (fade_ticks (q + 1 / 10))"
proof -
  from assms have q: "q \<le> 9 / 10" by simp
  have fl: "\<lfloor>(1 - q) * 10\<rfloor> = \<lfloor>(1 - (q + 1 / 10)) * 10\<rfloor> + 1"
  proof -
    have "(1 - q) * 10 = (1 - (q + 1 / 10)) * 10 + 1" by (simp add: algebra_simps)
    then show ?thesis by (metis floor_add_int of_int_1)
  qed
  have nn: "0 \<le> \<lfloor>(1 - (q + 1 / 10)) * 10\<rfloor>" using q by simp
  show ?thesis
  proof (cases "q + 1 / 10 > 9 / 10")
    case True
    then have "(1 - (q + 1 / 10)) * 10 < 1" by simp
    with nn have "\<lfloor>(1 - (q + 1 / 10)) * 10\<rfloor> = 0" by linarith
    with fl q True show ?thesis by (simp add: fade_ticks_def)
  next
    case False
    with fl q nn show ?thesis by (simp add: fade_ticks_def nat_add_distrib)
  qed
qed

lemma fade_ticks_pos: "0 < fade_ticks q"
  by (simp add: fade_ticks_def)

lemma run_add: "run (a + b) w = run b (run a w)"
  by (induction a arbitrary: w) simp_all

lemma step_single:
  "timers w = [(T, k)] \<Longrightarrow> step w = run_cont k (w\<lparr>now := max (now w) T, timers := []\<rparr>)"
  by (simp add: step_def)

lemma fadeIn_tick_last:
  assumes "timers w = [(T, FadeInTick el cb)]" "opacity w el = Some q" "q + 1 / 10 > 1" "now w \<le> T"
  shows "step w = invoke cb (w\<lparr>now := T, timers := [], opacity := (opacity w)(el := Some 1)\<rparr>)"
  using assms by (simp add: step_single run_cont_def max_def)

lemma fadeIn_tick_more:
  assumes "timers w = [(T, FadeInTick el cb)]" "opacity w el = Some q" "\<not> q + 1 / 10 > 1" "now w \<le> T"
  shows "step w = w\<lparr>now := T, timers := [(T + 80, FadeInTick el cb)],
                     opacity := (opacity w)(el := Some (q + 1 / 10)),
                     timeouts := timeouts w @ [80]\<rparr>"
  using assms
  by (simp add: step_single run_cont_def max_def fadeIn_def setTimeout_def init_opacity_def
      option_or_nat_def)

lemma fadeIn_runs:
  "timers w = [(T, FadeInTick el cb)] \<Longrightarrow> opacity w el = Some q \<Longrightarrow> now w \<le> T \<Longrightarrow>
   fade_ticks q = Suc m \<Longrightarrow>
   run (Suc m) w = invoke cb (w\<lparr>now := T + 80 * m, timers := [],
                                opacity := (opacity w)(el := Some 1),
                                timeouts := timeouts w @ replicate m 80\<rparr>)"
proof (induction m arbitrary: w T q)
  case 0
  have "q + 1 / 10 > 1"
  proof (rule ccontr)
    assume "\<not> q + 1 / 10 > 1"
    from fade_ticks_more[OF this] 0 fade_ticks_pos[of "q + 1 / 10"] show False by simp
  qed
  from fadeIn_tick_last[OF 0(1,2) this 0(3)]
  have s: "step w = invoke cb (w\<lparr>now := T, timers := [], opacity := (opacity w)(el := Some 1)\<rparr>)" .
  have e: "w\<lparr>now := T + 80 * 0, timers := [], opacity := (opacity w)(el := Some 1),
             timeouts := timeouts w @ replicate 0 80\<rparr>
           = w\<lparr>now := T, timers := [], opacity := (opacity w)(el := Some 1)\<rparr>"
    by simp
  have "run (Suc 0) w = step w" by simp
  with s e show ?case by (simp only:)
next
  case (Suc m)
  have more: "\<not> q + 1 / 10 > 1"
  proof
    assume "q + 1 / 10 > 1"
    then have "q > 9 / 10" by simp
    from fade_ticks_last[OF this] Suc.prems show False by simp
  qed
  let ?w1 = "w\<lparr>now := T, timers := [(T + 80, FadeInTick el cb)],
                     opacity := (opacity w)(el := Some (q + 1 / 10)),
                     timeouts := timeouts w @ [80]\<rparr>"
  have s: "step w = ?w1" by (rule fadeIn_tick_more[OF Suc.prems(1,2) more Suc.prems(3)])
  have t: "fade_ticks (q + 1 / 10) = Suc m" using fade_ticks_more[OF more] Suc.prems(4) by simp
  have ih: "run (Suc m) ?w1 = invoke cb (?w1\<lparr>now := T + 80 + 80 * m, timers := [],
                                opacity := (opacity ?w1)(el := Some 1),
                                timeouts := timeouts ?w1 @ replicate m 80\<rparr>)"
    by (rule Suc.IH[of ?w1 "T + 80" "q + 1 / 10"]) (simp_all add: t)
  have e: "?w1\<lparr>now := T + 80 + 80 * m, timers := [],
                opacity := (opacity ?w1)(el := Some 1),
                timeouts := timeouts ?w1 @ replicate m 80\<rparr>
           = w\<lparr>now := T + 80 * Suc m, timers := [],
                opacity := (opacity w)(el := Some 1),
                timeouts := timeouts w @ replicate (Suc m) 80\<rparr>"
    by (simp add: replicate_append_same)
  have "run (Suc (Suc m)) w = run (Suc m) (step w)" by simp
  also have "\<dots> = run (Suc m) ?w1" by (simp only: s)
  also note ih
  also note e
  finally show ?case .
qed

lemma fadeIn_fields:
  "timers w = [] \<Longrightarrow> timers (fadeIn el cb None w) = [(now w + 80, FadeInTick el cb)]"
  "opacity (fadeIn el cb None w) = (opacity w)(el := Some (opacity_or_1 (opacity w el)))"
  "now (fadeIn el cb None w) = now w"
  "trace (fadeIn el cb None w) = trace w"
  by (auto simp: fadeIn_def setTimeout_def init_opacity_def option_or_nat_def opacity_or_1_def
      fun_eq_iff split: option.splits)

lemma children_run:
  "length cs - i = k \<Longrightarrow> timers w = [] \<Longrightarrow>
   \<exists>n. timers (run n (fadeInRecursive cs d UserCallback i w)) = []
     \<and> trace (run n (fadeInRecursive cs d UserCallback i w))
         = trace w @ sequential_trace d i (now w) (fade_durations (opacity w) (drop i cs))
     \<and> now (run n (fadeInRecursive cs d UserCallback i w))
         = now w + sum_list (fade_durations (opacity w) (drop i cs)) + (length cs - i) * d"
proof (induction k arbitrary: i w)
  case 0
  then have "i \<ge> length cs" by simp
  then have "timers (run 0 (fadeInRecursive cs d UserCallback i w)) = []
     \<and> trace (run 0 (fadeInRecursive cs d UserCallback i w))
         = trace w @ sequential_trace d i (now w) (fade_durations (opacity w) (drop i cs))
     \<and> now (run 0 (fadeInRecursive cs d UserCallback i w))
         = now w + sum_list (fade_durations (opacity w) (drop i cs)) + (length cs - i) * d"
    using 0 by (simp add: fadeInRecursive_def invoke_def)
  then show ?case by blast
next
  case (Suc k)
  then have lt: "i < length cs" by simp
  define c where "c = cs ! i"
  define q where "q = opacity_or_1 (opacity w c)"
  define cb where "cb = ChildFaded cs d UserCallback i"
  define w0 where "w0 = w\<lparr>trace := trace w @ [ChildFadeStart i (now w)]\<rparr>"
  define w1 where "w1 = fadeIn c cb None w0"
  have start: "fadeInRecursive cs d UserCallback i w = w1"
    using lt by (simp add: fadeInRecursive_def w1_def w0_def c_def cb_def)
  have w1f: "timers w1 = [(now w + 80, FadeInTick c cb)]" "opacity w1 c = Some q"
    "now w1 = now w" "trace w1 = trace w @ [ChildFadeStart i (now w)]"
    "opacity w1 = (opacity w)(c := Some q)"
    using Suc.prems(2) by (simp_all add: w1_def w0_def fadeIn_fields q_def)
  obtain m where m: "fade_ticks q = Suc m" using fade_ticks_pos[of q] by (cases "fade_ticks q") auto
  define w2 where "w2 = w1\<lparr>now := now w + 80 + 80 * m, timers := [],
                                opacity := (opacity w1)(c := Some 1),
                                timeouts := timeouts w1 @ replicate m 80\<rparr>"
  have r1: "run (Suc m) w1 = invoke cb w2"
    unfolding w2_def by (rule fadeIn_runs[OF w1f(1) w1f(2) _ m]) (simp add: w1f)
  define dur where "dur = 80 * fade_ticks q"
  have dur: "now w + 80 + 80 * m = now w + dur" by (simp add: dur_def m)
  define w3 where "w3 = invoke cb w2"
  have w3f: "timers w3 = [(now w + dur + d, FadeInNext cs d UserCallback (i + 1))]"
    "now w3 = now w + dur"
    "trace w3 = trace w @ [ChildFadeStart i (now w), ChildFadeDone i (now w + dur)]"
    "opacity w3 = (opacity w)(c := Some 1)"
    by (simp_all add: w3_def w2_def cb_def invoke_def setTimeout_def w1f dur)
  define w4 where "w4 = w3\<lparr>now := now w + dur + d, timers := []\<rparr>"
  have r2: "step w3 = fadeInRecursive cs d UserCallback (Suc i) w4"
    using step_single[OF w3f(1)] by (simp add: run_cont_def w4_def w3f max_def)
  have w4f: "timers w4 = []" "now w4 = now w + dur + d"
    "trace w4 = trace w @ [ChildFadeStart i (now w), ChildFadeDone i (now w + dur)]"
    "opacity w4 = (opacity w)(c := Some 1)"
    by (simp_all add: w4_def w3f)
  from Suc.prems(1) have k: "length cs - Suc i = k" by simp
  from Suc.IH[OF k w4f(1)] obtain n where n:
    "timers (run n (fadeInRecursive cs d UserCallback (Suc i) w4)) = []"
    "trace (run n (fadeInRecursive cs d UserCallback (Suc i) w4))
         = trace w4 @ sequential_trace d (Suc i) (now w4) (fade_durations (opacity w4) (drop (Suc i) cs))"
    "now (run n (fadeInRecursive cs d UserCallback (Suc i) w4))
         = now w4 + sum_list (fade_durations (opacity w4) (drop (Suc i) cs)) + (length cs - Suc i) * d"
    by blast
  have total: "run (Suc m + (1 + n)) (fadeInRecursive cs d UserCallback i w)
                 = run n (fadeInRecursive cs d UserCallback (Suc i) w4)"
  proof -
    have "run (Suc m + (1 + n)) w1 = run (1 + n) (run (Suc m) w1)" by (rule run_add)
    also have "\<dots> = run (1 + n) w3" by (simp only: r1 w3_def)
    also have "\<dots> = run n (step w3)" by simp
    also have "\<dots> = run n (fadeInRecursive cs d UserCallback (Suc i) w4)" by (simp only: r2)
    finally show ?thesis by (simp only: start)
  qed
  have dr: "drop i cs = c # drop (Suc i) cs"
    using lt by (simp add: c_def Cons_nth_drop_Suc)
  have fd: "fade_durations (opacity w) (drop i cs)
              = dur # fade_durations ((opacity w)(c := Some 1)) (drop (Suc i) cs)"
    by (simp add: dr dur_def q_def)
  have len: "(length cs - i) * d = d + (length cs - Suc i) * d"
    using lt by (metis Suc_diff_Suc mult_Suc)
  have "timers (run (Suc m + (1 + n)) (fadeInRecursive cs d UserCallback i w)) = []
     \<and> trace (run (Suc m + (1 + n)) (fadeInRecursive cs d UserCallback i w))
         = trace w @ sequential_trace d i (now w) (fade_durations (opacity w) (drop i cs))
     \<and> now (run (Suc m + (1 + n)) (fadeInRecursive cs d UserCallback i w))
         = now w + sum_list (fade_durations (opacity w) (drop i cs)) + (length cs - i) * d"
    unfolding total using n by (simp add: w4f fd len)
  then show ?case by blast
qed

lemma sequential_trace_completed_once:
  "length (filter is_Completed (sequential_trace d i t ds)) = 1"
  by (induction ds arbitrary: i t) simp_all

text \<open>
  Claim C5, amended. From a state with no pending timer, \<open>fadeInChildrenProgressively\<close> runs
  to quiescence and the children's fades are strictly sequential: child \<open>k + 1\<close>'s fade
  begins exactly \<open>interDelayMs\<close> after child \<open>k\<close>'s fade is done, the completion callback is
  invoked exactly once, \<open>interDelayMs\<close> after the last child's fade is done, and the delay
  added to the children's own fade durations is \<open>count * interDelayMs\<close>.
\<close>

theorem progressive_fade_sequential:
  assumes quiet: "timers w = []"
  shows "\<exists>n. timers (run n (fadeInChildrenProgressively children UserCallback options w)) = []
     \<and> trace (run n (fadeInChildrenProgressively children UserCallback options w))
         = trace w @ sequential_trace (option_or_nat 2000 options) 0 (now w)
                       (fade_durations (opacity w) children)
     \<and> length (filter is_Completed
          (sequential_trace (option_or_nat 2000 options) 0 (now w)
             (fade_durations (opacity w) children))) = 1
     \<and> now (run n (fadeInChildrenProgressively children UserCallback options w))
         = now w + sum_list (fade_durations (opacity w) children)
             + length children * option_or_nat 2000 options"
proof -
  from children_run[where cs = children and i = 0 and w = w
      and d = "option_or_nat 2000 options", OF refl quiet]
  obtain n where "timers (run n (fadeInRecursive children (option_or_nat 2000 options)
                      UserCallback 0 w)) = []
     \<and> trace (run n (fadeInRecursive children (option_or_nat 2000 options) UserCallback 0 w))
         = trace w @ sequential_trace (option_or_nat 2000 options) 0 (now w)
                       (fade_durations (opacity w) children)
     \<and> now (run n (fadeInRecursive children (option_or_nat 2000 options) UserCallback 0 w))
         = now w + sum_list (fade_durations (opacity w) children)
             + length children * option_or_nat 2000 options"
    by auto
  then show ?thesis
    using sequential_trace_completed_once
    by (auto simp: fadeInChildrenProgressively_def Let_def)
qed

theorem progressive_fade_sequential_witness:
  "\<exists>n. trace (run n (fadeInChildrenProgressively [5, 6, 7] UserCallback (Some 2000) idle_world))
         = [ChildFadeStart 0 0, ChildFadeDone 0 80, ChildFadeStart 1 2080,
            ChildFadeDone 1 2160, ChildFadeStart 2 4160, ChildFadeDone 2 4240,
            Completed 6240]
     \<and> now (run n (fadeInChildrenProgressively [5, 6, 7] UserCallback (Some 2000) idle_world))
         = 6240"
proof -
  have q: "timers idle_world = []" by (simp add: idle_world_def)
  from progressive_fade_sequential[OF q, of "[5, 6, 7]" "Some 2000"]
  obtain n where
    tr: "trace (run n (fadeInChildrenProgressively [5, 6, 7] UserCallback (Some 2000) idle_world))
         = trace idle_world @ sequential_trace (option_or_nat 2000 (Some 2000)) 0 (now idle_world)
                       (fade_durations (opacity idle_world) [5, 6, 7])"
    and nw: "now (run n (fadeInChildrenProgressively [5, 6, 7] UserCallback (Some 2000) idle_world))
         = now idle_world + sum_list (fade_durations (opacity idle_world) [5, 6, 7])
             + length [5, 6, 7::nat] * option_or_nat 2000 (Some 2000)"
    by blast
  have e1: "trace idle_world @ sequential_trace (option_or_nat 2000 (Some 2000)) 0 (now idle_world)
                       (fade_durations (opacity idle_world) [5, 6, 7])
        = [ChildFadeStart 0 0, ChildFadeDone 0 80, ChildFadeStart 1 2080,
            ChildFadeDone 1 2160, ChildFadeStart 2 4160, ChildFadeDone 2 4240,
            Completed 6240]"
    by (simp add: idle_world_def option_or_nat_def opacity_or_1_def fade_ticks_def
        numeral_2_eq_2)
  have e2: "now idle_world + sum_list (fade_durations (opacity idle_world) [5, 6, 7])
             + length [5, 6, 7::nat] * option_or_nat 2000 (Some 2000) = 6240"
    by (simp add: idle_world_def option_or_nat_def opacity_or_1_def fade_ticks_def)
  from tr nw show ?thesis unfolding e1 e2 by blast
qed

section \<open>Properties of the slideshow construction\<close>























section \<open>Properties of the slideshow navigation\<close>














end
